theory Spec2Isabelle
  imports Main
begin

section \<open>Identifiers\<close>

text \<open>
  Mongoose ObjectIds are only ever compared through \<open>toString()\<close>, so an id is an
  opaque value with decidable equality.
\<close>

type_synonym object_id = nat

section \<open>Band model (band.model.js, bandSchema)\<close>

datatype band_role = Leader | Member

datatype permission = edit_setlists | add_songs | edit_songs | invite_members | remove_members

record band_member =
  userId :: object_id
  role :: band_role
  permissions :: "permission list"

text \<open>\<open>band_id\<close> is the document's \<open>_id\<close>, \<open>band_createdBy\<close> its \<open>createdBy\<close>.\<close>

record band =
  band_id :: object_id
  band_name :: string
  members :: "band_member list"
  band_createdBy :: object_id

text \<open>
  \<open>bandSchema.pre('save')\<close>. The flag \<open>isNew\<close> is Mongoose's \<open>this.isNew\<close>.
  \<open>Array.prototype.find\<close> is \<open>List.find\<close>: the first element satisfying the test.
\<close>

definition band_pre_save :: "bool \<Rightarrow> band \<Rightarrow> band" where
  "band_pre_save isNew b =
     (if isNew then
        (case find (\<lambda>m. userId m = band_createdBy b) (members b) of
           None \<Rightarrow>
             b\<lparr>members := members b @
               [\<lparr>userId = band_createdBy b, role = Leader,
                 permissions = [edit_setlists, add_songs, edit_songs, invite_members, remove_members]\<rparr>]\<rparr>
         | Some creatorMember \<Rightarrow> b)
      else b)"

definition hasMember :: "band \<Rightarrow> object_id \<Rightarrow> bool" where
  "hasMember b uid = list_ex (\<lambda>m. userId m = uid) (members b)"

text \<open>\<open>member && member.role === 'leader'\<close>: a missing member is falsy.\<close>

definition isLeader :: "band \<Rightarrow> object_id \<Rightarrow> bool" where
  "isLeader b uid =
     (case find (\<lambda>m. userId m = uid) (members b) of
        None \<Rightarrow> False
      | Some m \<Rightarrow> role m = Leader)"

definition hasPermission :: "band \<Rightarrow> object_id \<Rightarrow> permission \<Rightarrow> bool" where
  "hasPermission b uid p =
     (case find (\<lambda>m. userId m = uid) (members b) of
        None \<Rightarrow> False
      | Some m \<Rightarrow> if role m = Leader then True else p \<in> set (permissions m))"

section \<open>Setlist model (setlistSchema)\<close>

text \<open>
  A song entry of a set. \<open>duration\<close> is \<open>None\<close> when the caller passed no value
  (\<open>undefined\<close>); \<open>song_notes\<close> is the field \<open>notes\<close>; \<open>isPlayed\<close> takes the schema
  default \<open>false\<close>.
\<close>

record song_entry =
  songId :: object_id
  order :: int
  duration :: "int option"
  song_notes :: string
  isPlayed :: bool

text \<open>A set; \<open>set_duration\<close> is the field \<open>duration\<close> of the set sub-document.\<close>

record set_entry =
  name :: string
  set_duration :: int
  songs :: "song_entry list"

text \<open>A version record; \<open>vr_version\<close> is its field \<open>version\<close>.\<close>

record version_record =
  vr_version :: int
  changedBy :: object_id
  changes :: string

text \<open>
  The setlist document. \<open>sets\<close> is a JavaScript array: an element is \<open>None\<close> where the
  array has a hole, which is what an assignment past the end of the array leaves behind.
\<close>

record setlist =
  title :: string
  totalDuration :: int
  sets :: "set_entry option list"
  createdBy :: object_id
  bandId :: "object_id option"
  isPublic :: bool
  version :: int
  versionHistory :: "version_record list"

subsection \<open>Array primitives of the host language\<close>

text \<open>\<open>this.sets[i]\<close>: \<open>undefined\<close> for a negative index, past the end, or at a hole.\<close>

definition sets_at :: "set_entry option list \<Rightarrow> int \<Rightarrow> set_entry option" where
  "sets_at xs i = (if 0 \<le> i \<and> i < int (length xs) then xs ! nat i else None)"

text \<open>\<open>songs[i]\<close>: the songs arrays are only built by \<open>push\<close> and \<open>splice\<close>, so they are dense.\<close>

definition song_at :: "song_entry list \<Rightarrow> int \<Rightarrow> song_entry option" where
  "song_at ss i = (if 0 \<le> i \<and> i < int (length ss) then Some (ss ! nat i) else None)"

text \<open>\<open>this.sets[i] = v\<close>: overwrites in range, otherwise extends the array, leaving holes.\<close>

definition sets_assign :: "set_entry option list \<Rightarrow> nat \<Rightarrow> set_entry \<Rightarrow> set_entry option list" where
  "sets_assign xs i v =
     (if i < length xs then xs[i := Some v]
      else xs @ replicate (i - length xs) None @ [Some v])"

text \<open>In-place mutation of the \<open>songs\<close> array of the set at index \<open>i\<close>.\<close>

definition update_songs ::
  "set_entry option list \<Rightarrow> nat \<Rightarrow> (song_entry list \<Rightarrow> song_entry list) \<Rightarrow> set_entry option list" where
  "update_songs xs i f =
     (if i < length xs then xs[i := map_option (\<lambda>s. s\<lparr>songs := f (songs s)\<rparr>) (xs ! i)] else xs)"

text \<open>
  The start index \<open>Array.prototype.splice\<close> computes from its first argument: a negative
  start counts from the end, and the result is kept within \<open>0..len\<close>.
\<close>

definition splice_start :: "nat \<Rightarrow> int \<Rightarrow> nat" where
  "splice_start len start =
     (if start < 0 then nat (max (int len + start) 0) else nat (min start (int len)))"

text \<open>\<open>xs.splice(start, 1)\<close> and \<open>xs.splice(start, 0, x)\<close>, as the array they leave.\<close>

definition splice_delete1 :: "'a list \<Rightarrow> int \<Rightarrow> 'a list" where
  "splice_delete1 xs start = (let k = splice_start (length xs) start in take k xs @ drop (Suc k) xs)"

definition splice_insert :: "'a list \<Rightarrow> int \<Rightarrow> 'a \<Rightarrow> 'a list" where
  "splice_insert xs start x = (let k = splice_start (length xs) start in take k xs @ [x] @ drop k xs)"

text \<open>Decimal rendering of a number inside a template literal.\<close>

fun string_of_nat :: "nat \<Rightarrow> string" where
  "string_of_nat n =
     (if n < 10 then [''0123456789'' ! n]
      else string_of_nat (n div 10) @ [''0123456789'' ! (n mod 10)])"

declare string_of_nat.simps [simp del]

subsection \<open>The pre-save hook: duration totals\<close>

text \<open>\<open>song.duration || 0\<close>: an absent duration counts as 0.\<close>

definition duration_or_0 :: "song_entry \<Rightarrow> int" where
  "duration_or_0 song = (case duration song of None \<Rightarrow> 0 | Some d \<Rightarrow> d)"

text \<open>The inner \<open>reduce\<close> over the songs of one set.\<close>

definition song_total :: "song_entry list \<Rightarrow> int" where
  "song_total ss = foldl (\<lambda>setTotal song. setTotal + duration_or_0 song) 0 ss"

text \<open>
  The outer \<open>reduce\<close>, which both accumulates the total and stores each set's duration.
  \<open>reduce\<close> does not visit holes.
\<close>

fun reduce_sets :: "int \<Rightarrow> set_entry option list \<Rightarrow> int \<times> set_entry option list" where
  "reduce_sets tot [] = (tot, [])"
| "reduce_sets tot (None # rest) =
     (case reduce_sets tot rest of (t, rest') \<Rightarrow> (t, None # rest'))"
| "reduce_sets tot (Some s # rest) =
     (let s' = s\<lparr>set_duration := song_total (songs s)\<rparr> in
      case reduce_sets (tot + set_duration s') rest of (t, rest') \<Rightarrow> (t, Some s' # rest'))"

definition setlist_pre_save :: "setlist \<Rightarrow> setlist" where
  "setlist_pre_save sl =
     (case reduce_sets 0 (sets sl) of (t, sets') \<Rightarrow> sl\<lparr>sets := sets', totalDuration := t\<rparr>)"

text \<open>The sets that are present, in order.\<close>

definition present_sets :: "setlist \<Rightarrow> set_entry list" where
  "present_sets sl = List.map_filter id (sets sl)"

subsection \<open>Access check\<close>

text \<open>
  The Band collection behind \<open>Band.findOne\<close>. The query is asynchronous: its promise
  resolves to the first matching document or \<open>null\<close>, and rejects when the store cannot
  be reached.
\<close>

datatype band_store = Connected "band list" | Unreachable

datatype lookup_error = LookupFailed

definition findOne :: "band_store \<Rightarrow> object_id \<Rightarrow> object_id \<Rightarrow> lookup_error + band option" where
  "findOne store bid uid =
     (case store of
        Unreachable \<Rightarrow> Inl LookupFailed
      | Connected bs \<Rightarrow>
          Inr (find (\<lambda>b. band_id b = bid \<and> list_ex (\<lambda>m. userId m = uid) (members b)) bs))"

text \<open>\<open>setlistSchema.methods.isAccessibleBy\<close>; \<open>Inl\<close> is a rejected promise.\<close>

definition isAccessibleBy :: "setlist \<Rightarrow> band_store \<Rightarrow> object_id \<Rightarrow> lookup_error + bool" where
  "isAccessibleBy sl store uid =
     (if isPublic sl then Inr True
      else if createdBy sl = uid then Inr True
      else
        (case bandId sl of
           Some bid \<Rightarrow>
             (case findOne store bid uid of
                Inl e \<Rightarrow> Inl e
              | Inr band \<Rightarrow> Inr (band \<noteq> None))
         | None \<Rightarrow> Inr False))"

subsection \<open>Ordering operations\<close>

datatype error = Invalid_set_index | Invalid_song_index

text \<open>\<open>Math.max(...songs.map(s => s.order))\<close> on a non-empty array.\<close>

definition max_order :: "song_entry list \<Rightarrow> int" where
  "max_order ss = Max (set (map order ss))"

text \<open>\<open>setlistSchema.methods.addSong\<close>; \<open>setIndex\<close> is an array index.\<close>

definition addSong :: "setlist \<Rightarrow> nat \<Rightarrow> object_id \<Rightarrow> int option \<Rightarrow> string \<Rightarrow> setlist" where
  "addSong sl setIndex sid dur nts =
     (let sets1 =
            (case sets_at (sets sl) (int setIndex) of
               None \<Rightarrow>
                 sets_assign (sets sl) setIndex
                   \<lparr>name = ''Set '' @ string_of_nat (setIndex + 1), set_duration = 0, songs = []\<rparr>
             | Some s \<Rightarrow> sets sl);
          cur = (case sets_at sets1 (int setIndex) of None \<Rightarrow> [] | Some s \<Rightarrow> songs s);
          nextOrder = (if length cur \<noteq> 0 then max_order cur + 1 else 1)
      in sl\<lparr>sets := update_songs sets1 setIndex
                 (\<lambda>ss. ss @ [\<lparr>songId = sid, order = nextOrder, duration = dur,
                               song_notes = nts, isPlayed = False\<rparr>])\<rparr>)"

text \<open>The \<open>forEach\<close> that sets \<open>song.order = index + 1\<close>.\<close>

definition renumber :: "song_entry list \<Rightarrow> song_entry list" where
  "renumber ss = map (\<lambda>(index, song). song\<lparr>order := int index + 1\<rparr>) (enumerate 0 ss)"

text \<open>
  \<open>setlistSchema.methods.moveSong\<close>. Both \<open>throw\<close> statements come before the first
  mutation, so an \<open>Inl\<close> result leaves the document as it was.
\<close>

definition moveSong :: "setlist \<Rightarrow> int \<Rightarrow> int \<Rightarrow> int \<Rightarrow> int \<Rightarrow> error + setlist" where
  "moveSong sl fromSetIndex fromSongIndex toSetIndex toPosition =
     (if sets_at (sets sl) fromSetIndex = None \<or> sets_at (sets sl) toSetIndex = None
      then Inl Invalid_set_index
      else
        (case sets_at (sets sl) fromSetIndex of
           None \<Rightarrow> Inl Invalid_set_index
         | Some src \<Rightarrow>
             (case song_at (songs src) fromSongIndex of
                None \<Rightarrow> Inl Invalid_song_index
              | Some song \<Rightarrow>
                  (let s1 = update_songs (sets sl) (nat fromSetIndex)
                              (\<lambda>ss. splice_delete1 ss fromSongIndex);
                       s2 = update_songs s1 (nat toSetIndex)
                              (\<lambda>ss. splice_insert ss toPosition song);
                       s3 = update_songs s2 (nat toSetIndex) renumber;
                       s4 = (if fromSetIndex \<noteq> toSetIndex
                             then update_songs s3 (nat fromSetIndex) renumber else s3)
                   in Inr (sl\<lparr>sets := s4\<rparr>)))))"

text \<open>Modelled from the spec: \<open>removeSong(setIndex, songIndex)\<close> is described in section 4.2
  of the specification ("removes the entry and renumbers the remaining entries of that set
  contiguously") but the source defines no such method. Out-of-range indexes are reported
  the way \<open>moveSong\<close> reports them.
\<close>

definition removeSong :: "setlist \<Rightarrow> int \<Rightarrow> int \<Rightarrow> error + setlist" where
  "removeSong sl setIndex songIndex =
     (case sets_at (sets sl) setIndex of
        None \<Rightarrow> Inl Invalid_set_index
      | Some s \<Rightarrow>
          (case song_at (songs s) songIndex of
             None \<Rightarrow> Inl Invalid_song_index
           | Some song \<Rightarrow>
               Inr (sl\<lparr>sets := update_songs (sets sl) (nat setIndex)
                                (\<lambda>ss. renumber (splice_delete1 ss songIndex))\<rparr>)))"

text \<open>
  Sequences of ordering operations. An operation that throws has mutated nothing, so the
  document a caller holds afterwards is the one it held before.
\<close>

datatype set_op =
    AddSong nat object_id "int option" string
  | MoveSong int int int int
  | RemoveSong int int

definition keep_on_error :: "setlist \<Rightarrow> error + setlist \<Rightarrow> setlist" where
  "keep_on_error sl r = (case r of Inl e \<Rightarrow> sl | Inr sl' \<Rightarrow> sl')"

fun apply_op :: "setlist \<Rightarrow> set_op \<Rightarrow> setlist" where
  "apply_op sl (AddSong setIndex sid dur nts) = addSong sl setIndex sid dur nts"
| "apply_op sl (MoveSong fromSetIndex fromSongIndex toSetIndex toPosition) =
     keep_on_error sl (moveSong sl fromSetIndex fromSongIndex toSetIndex toPosition)"
| "apply_op sl (RemoveSong setIndex songIndex) =
     keep_on_error sl (removeSong sl setIndex songIndex)"

text \<open>The document after each operation of a sequence, in order.\<close>

fun states_after :: "setlist \<Rightarrow> set_op list \<Rightarrow> setlist list" where
  "states_after sl [] = []"
| "states_after sl (op # ops) = apply_op sl op # states_after (apply_op sl op) ops"

text \<open>The order values of a set are exactly \<open>1..N\<close>, each once.\<close>

definition contiguous_orders :: "song_entry list \<Rightarrow> bool" where
  "contiguous_orders ss =
     (distinct (map order ss) \<and> set (map order ss) = {1..int (length ss)})"

definition setlist_inv :: "setlist \<Rightarrow> bool" where
  "setlist_inv sl =
     list_all (\<lambda>s. case s of None \<Rightarrow> True | Some st \<Rightarrow> contiguous_orders (songs st)) (sets sl)"

text \<open>The order values of the set at an index, in positional order.\<close>

definition orders_in :: "setlist \<Rightarrow> int \<Rightarrow> int list" where
  "orders_in sl i = (case sets_at (sets sl) i of None \<Rightarrow> [] | Some s \<Rightarrow> map order (songs s))"

definition song_ids_in :: "setlist \<Rightarrow> int \<Rightarrow> object_id list" where
  "song_ids_in sl i = (case sets_at (sets sl) i of None \<Rightarrow> [] | Some s \<Rightarrow> map songId (songs s))"

text \<open>An entry apart from its order value.\<close>

definition unordered :: "song_entry \<Rightarrow> song_entry" where
  "unordered e = e\<lparr>order := 0\<rparr>"

text \<open>
  The insertion position in the specification's words: \<open>toPosition\<close> clamped to the
  range \<open>[0, length]\<close>. It is compared below with the position \<open>splice\<close> computes.
\<close>

definition clamped_position :: "nat \<Rightarrow> int \<Rightarrow> nat" where
  "clamped_position len toPosition = nat (max 0 (min toPosition (int len)))"

text \<open>Reading a set of the document an operation returns.\<close>

definition song_ids_of_result :: "error + setlist \<Rightarrow> int \<Rightarrow> error + object_id list" where
  "song_ids_of_result r i = (case r of Inl e \<Rightarrow> Inl e | Inr sl \<Rightarrow> Inr (song_ids_in sl i))"

definition orders_of_result :: "error + setlist \<Rightarrow> int \<Rightarrow> error + int list" where
  "orders_of_result r i = (case r of Inl e \<Rightarrow> Inl e | Inr sl \<Rightarrow> Inr (orders_in sl i))"

subsection \<open>Version history\<close>

text \<open>Modelled from the spec: \<open>commit(setlist, actorId, description)\<close> of section 4.4
  ("appends a new VersionRecord with version = setlist.version + 1, then sets
  setlist.version to that value"). The source declares the fields \<open>version\<close> and
  \<open>versionHistory\<close> in the schema and has no code that writes them.
\<close>

definition commit :: "setlist \<Rightarrow> object_id \<Rightarrow> string \<Rightarrow> setlist" where
  "commit sl actorId description =
     (let v = version sl + 1 in
      sl\<lparr>versionHistory :=
            versionHistory sl @ [\<lparr>vr_version = v, changedBy = actorId, changes = description\<rparr>],
         version := v\<rparr>)"

fun commit_all :: "setlist \<Rightarrow> (object_id \<times> string) list \<Rightarrow> setlist" where
  "commit_all sl [] = sl"
| "commit_all sl ((actorId, description) # cs) = commit_all (commit sl actorId description) cs"

fun consecutive :: "int list \<Rightarrow> bool" where
  "consecutive (x # y # zs) = (y = x + 1 \<and> consecutive (y # zs))"
| "consecutive zs = True"

definition history_consistent :: "setlist \<Rightarrow> bool" where
  "history_consistent sl =
     (consecutive (map vr_version (versionHistory sl)) \<and>
      (versionHistory sl = [] \<or> vr_version (last (versionHistory sl)) = version sl))"

text \<open>A fresh document: the schema defaults, with the two required fields given.\<close>

definition new_setlist :: "string \<Rightarrow> object_id \<Rightarrow> setlist" where
  "new_setlist ttl creator =
     \<lparr>title = ttl, totalDuration = 0, sets = [], createdBy = creator, bandId = None,
      isPublic = False, version = 1, versionHistory = []\<rparr>"

section \<open>Collaboration rooms (server.js, the socket.io connection handler)\<close>

type_synonym socket_id = nat

text \<open>The payload of \<open>update-setlist\<close>: an object with a \<open>setlistId\<close>.\<close>

record update_data =
  setlistId :: string
  body :: string

text \<open>
  The state of the socket.io server that the handlers touch: who is in which room, and
  the \<open>setlist-updated\<close> events emitted to each socket so far.
\<close>

record io_state =
  rooms :: "string \<Rightarrow> socket_id set"
  delivered :: "socket_id \<Rightarrow> update_data list"

definition io_init :: io_state where
  "io_init = \<lparr>rooms = (\<lambda>r. {}), delivered = (\<lambda>s. [])\<rparr>"

text \<open>The template literal \<open>`setlist-${id}`\<close>.\<close>

definition room_name :: "string \<Rightarrow> string" where
  "room_name sid = ''setlist-'' @ sid"

text \<open>\<open>socket.join(room)\<close>: a room is a set of socket ids.\<close>

definition socket_join :: "io_state \<Rightarrow> socket_id \<Rightarrow> string \<Rightarrow> io_state" where
  "socket_join st s room = st\<lparr>rooms := (rooms st)(room := insert s (rooms st room))\<rparr>"

text \<open>
  \<open>socket.to(room).emit('setlist-updated', data)\<close>: socket.io's broadcast operator emits
  to the sockets of the room, the emitting socket excluded.
\<close>

definition socket_to_emit :: "io_state \<Rightarrow> socket_id \<Rightarrow> string \<Rightarrow> update_data \<Rightarrow> io_state" where
  "socket_to_emit st s room d =
     st\<lparr>delivered := (\<lambda>t. if t \<in> rooms st room \<and> t \<noteq> s then delivered st t @ [d]
                             else delivered st t)\<rparr>"

text \<open>
  The three handlers. The \<open>disconnect\<close> handler only logs; socket.io itself removes a
  disconnected socket from every room.
\<close>

datatype client_event =
    Join_setlist socket_id string
  | Update_setlist socket_id update_data
  | Disconnect socket_id

fun handle :: "io_state \<Rightarrow> client_event \<Rightarrow> io_state" where
  "handle st (Join_setlist s sid) = socket_join st s (room_name sid)"
| "handle st (Update_setlist s d) = socket_to_emit st s (room_name (setlistId d)) d"
| "handle st (Disconnect s) = st\<lparr>rooms := (\<lambda>r. rooms st r - {s})\<rparr>"

definition run_events :: "io_state \<Rightarrow> client_event list \<Rightarrow> io_state" where
  "run_events st evs = foldl handle st evs"

section \<open>Example documents\<close>

definition band_listed_creator :: band where
  "band_listed_creator =
     \<lparr>band_id = 1, band_name = ''Trio'',
      members = [\<lparr>userId = 7, role = Member, permissions = [edit_setlists, add_songs]\<rparr>],
      band_createdBy = 7\<rparr>"

definition band_ten :: band where
  "band_ten =
     \<lparr>band_id = 10, band_name = ''Quartet'',
      members = [\<lparr>userId = 5, role = Member, permissions = []\<rparr>],
      band_createdBy = 1\<rparr>"

definition setlist_public :: setlist where
  "setlist_public = (new_setlist ''Open mic'' 1)\<lparr>isPublic := True\<rparr>"

definition setlist_of_band :: setlist where
  "setlist_of_band = (new_setlist ''Rehearsal'' 1)\<lparr>bandId := Some 10\<rparr>"

text \<open>
  The scenario of the specification: Set 0 holds songs 1 and 2 (180 s and 200 s), Set 1
  holds song 3 (150 s).
\<close>

definition setlist_two_sets :: setlist where
  "setlist_two_sets =
     addSong (addSong (addSong (new_setlist ''Gig'' 1) 0 1 (Some 180) [])
                0 2 (Some 200) []) 1 3 (Some 150) []"

text \<open>One set of three songs.\<close>

definition setlist_three_songs :: setlist where
  "setlist_three_songs =
     addSong (addSong (addSong (new_setlist ''Trio set'' 1) 0 1 (Some 180) [])
                0 2 (Some 200) []) 0 3 (Some 150) []"

text \<open>A document whose first \<open>addSong\<close> went to index 1: index 0 is a hole.\<close>

definition setlist_with_hole :: setlist where
  "setlist_with_hole = addSong (new_setlist ''Late start'' 1) 1 1 (Some 180) []"

text \<open>
  A document with an entry whose duration is absent (song 2) and a hole at index 1.
\<close>

definition setlist_absent_duration :: setlist where
  "setlist_absent_duration =
     addSong (addSong (addSong (new_setlist ''Demo'' 1) 0 1 (Some 180) [])
                0 2 None []) 2 3 (Some 150) []"

text \<open>The scenario document after \<open>moveSong(0, 1, 1, 0)\<close>.\<close>

definition setlist_after_move :: setlist where
  "setlist_after_move = keep_on_error setlist_two_sets (moveSong setlist_two_sets 0 1 1 0)"

section \<open>Properties of the band model\<close>

lemma find_append_None: "find P xs = None \<Longrightarrow> find P (xs @ ys) = find P ys"
  by (induction xs) (auto split: if_splits)

lemma find_Some_holds: "find P xs = Some x \<Longrightarrow> x \<in> set xs \<and> P x"
  by (induction xs) (auto split: if_splits)

lemma find_is_None: "(find P xs = None) = (\<not> list_ex P xs)"
  by (induction xs) auto

lemma find_is_Some: "(\<exists>y. find P xs = Some y) = list_ex P xs"
  by (induction xs) auto

text \<open>After the creation hook the creator is always a member.\<close>

lemma hasMember_band_pre_save: "hasMember (band_pre_save True b) (band_createdBy b)"
proof (cases "find (\<lambda>m. userId m = band_createdBy b) (members b)")
  case None
  then show ?thesis by (simp add: hasMember_def band_pre_save_def)
next
  case (Some m)
  from find_Some_holds[OF this] show ?thesis
    by (auto simp: hasMember_def band_pre_save_def Some list_ex_iff)
qed

text \<open>A creator who was not listed is added as a leader, and so holds every permission.\<close>

lemma band_pre_save_unlisted_creator:
  assumes "\<not> hasMember b (band_createdBy b)"
  shows "hasPermission (band_pre_save True b) (band_createdBy b) p
         \<and> isLeader (band_pre_save True b) (band_createdBy b)"
proof -
  from assms have n: "find (\<lambda>m. userId m = band_createdBy b) (members b) = None"
    by (simp add: hasMember_def find_is_None)
  show ?thesis
    by (simp add: hasPermission_def isLeader_def band_pre_save_def n find_append_None)
qed

text \<open>
  Claim C10 says that after the creation hook of a new band the creator holds every
  permission. The hook only looks for the creator among the members: a creator already
  listed with role \<open>member\<close> is left as listed. For the new band \<open>band_listed_creator\<close>,
  whose creator 7 is listed as a plain member with \<open>edit_setlists\<close> and \<open>add_songs\<close>, the
  hook changes nothing, so the creator is a member but not a leader and does not hold
  \<open>remove_members\<close>.
\<close>

theorem band_pre_save_listed_creator_not_leader:
  "hasMember (band_pre_save True band_listed_creator) 7 \<and>
   isLeader (band_pre_save True band_listed_creator) 7 = False \<and>
   hasPermission (band_pre_save True band_listed_creator) 7 remove_members = False \<and>
   band_pre_save True band_listed_creator = band_listed_creator"
  by (simp add: band_listed_creator_def band_pre_save_def hasMember_def isLeader_def
      hasPermission_def)

section \<open>Properties of the access check\<close>

lemma findOne_member:
  "(\<exists>y. find (\<lambda>b. band_id b = bid \<and> list_ex (\<lambda>m. userId m = uid) (members b)) bs = Some y) =
     (\<exists>b \<in> set bs. band_id b = bid \<and> hasMember b uid)"
  by (simp add: find_is_Some hasMember_def list_ex_iff)

text \<open>
  Claim C5. Against a Band collection that answers, the read check returns true exactly
  when the setlist is public, or the actor is its creator, or the setlist has a band id
  and the collection holds a band of that id with the actor among its members. A public
  setlist grants read access to any actor, whatever the state of the collection.
\<close>

theorem isAccessibleBy_read:
  "isAccessibleBy sl (Connected bs) uid =
     Inr (isPublic sl \<or> createdBy sl = uid \<or>
          (\<exists>bid. bandId sl = Some bid \<and> (\<exists>b \<in> set bs. band_id b = bid \<and> hasMember b uid)))
   \<and> (isPublic sl \<longrightarrow> isAccessibleBy sl store uid = Inr True)"
  by (cases "bandId sl") (simp_all add: isAccessibleBy_def findOne_def findOne_member)

text \<open>
  Claim C5 at concrete inputs: a public setlist and a stranger (99); a private band
  setlist and its creator (1), a band member (5) and a stranger (6).
\<close>

theorem isAccessibleBy_read_witness:
  "isPublic setlist_public \<and>
   isAccessibleBy setlist_public Unreachable 99 = Inr True \<and>
   isAccessibleBy setlist_public (Connected []) 99 = Inr True \<and>
   isAccessibleBy setlist_of_band (Connected [band_ten]) 1 = Inr True \<and>
   isAccessibleBy setlist_of_band (Connected [band_ten]) 5 = Inr True \<and>
   isAccessibleBy setlist_of_band (Connected [band_ten]) 6 = Inr False"
  using isAccessibleBy_read [of setlist_public "[]" 99 Unreachable]
    isAccessibleBy_read [of setlist_of_band "[band_ten]" 1 Unreachable]
    isAccessibleBy_read [of setlist_of_band "[band_ten]" 5 Unreachable]
    isAccessibleBy_read [of setlist_of_band "[band_ten]" 6 Unreachable]
  by (simp add: setlist_public_def setlist_of_band_def new_setlist_def band_ten_def hasMember_def)

text \<open>
  Claim C7 says the access check never throws and answers false when the membership
  lookup cannot resolve. For the private band setlist \<open>setlist_of_band\<close>, an actor 5 who is
  not its creator, and a Band collection that cannot be reached, the check does not
  return false: the rejection of the lookup is the outcome of the check.
\<close>

theorem isAccessibleBy_lookup_failure_propagates:
  "isAccessibleBy setlist_of_band Unreachable 5 = Inl LookupFailed \<and>
   isAccessibleBy setlist_of_band Unreachable 5 \<noteq> Inr False"
  by (simp add: isAccessibleBy_def findOne_def setlist_of_band_def new_setlist_def)

text \<open>
  Claim C7, amended. The check answers true without any lookup when the setlist is
  public or the actor is its creator, whatever the state of the Band collection. For a
  private setlist of another user it answers false when no band id is set, and when the
  lookup resolves without a band of that id that has the actor as a member (the band is
  absent, or the actor is not in it). It fails exactly when the setlist is private, the
  actor is not the creator, a band id is set and the lookup itself fails: that failure is
  not caught.
\<close>

theorem isAccessibleBy_outcomes:
  "(isPublic sl \<or> createdBy sl = uid \<longrightarrow> isAccessibleBy sl store uid = Inr True) \<and>
   (\<not> isPublic sl \<and> createdBy sl \<noteq> uid \<and> bandId sl = None \<longrightarrow>
      isAccessibleBy sl store uid = Inr False) \<and>
   (\<not> isPublic sl \<and> createdBy sl \<noteq> uid \<and> bandId sl = Some bid \<and>
      \<not> (\<exists>b \<in> set bs. band_id b = bid \<and> hasMember b uid) \<longrightarrow>
      isAccessibleBy sl (Connected bs) uid = Inr False) \<and>
   ((\<exists>e. isAccessibleBy sl store uid = Inl e) =
      (\<not> isPublic sl \<and> createdBy sl \<noteq> uid \<and> bandId sl \<noteq> None \<and> store = Unreachable))"
proof -
  have a: "isPublic sl \<or> createdBy sl = uid \<longrightarrow> isAccessibleBy sl store uid = Inr True"
    by (auto simp: isAccessibleBy_def)
  have b: "\<not> isPublic sl \<and> createdBy sl \<noteq> uid \<and> bandId sl = None \<longrightarrow>
      isAccessibleBy sl store uid = Inr False"
    by (simp add: isAccessibleBy_def)
  have c: "\<not> isPublic sl \<and> createdBy sl \<noteq> uid \<and> bandId sl = Some bid \<and>
      \<not> (\<exists>b \<in> set bs. band_id b = bid \<and> hasMember b uid) \<longrightarrow>
      isAccessibleBy sl (Connected bs) uid = Inr False"
    using findOne_member[of bid uid bs]
    by (simp add: isAccessibleBy_def findOne_def)
  have d: "(\<exists>e. isAccessibleBy sl store uid = Inl e) =
      (\<not> isPublic sl \<and> createdBy sl \<noteq> uid \<and> bandId sl \<noteq> None \<and> store = Unreachable)"
    by (cases store; cases "bandId sl") (simp_all add: isAccessibleBy_def findOne_def)
  from a b c d show ?thesis by blast
qed

text \<open>
  Claim C7, amended, at concrete inputs: a public setlist and the creator's own setlist
  with the collection unreachable; a setlist without band; a band setlist whose band is
  absent from the collection; and the failing lookup.
\<close>

theorem isAccessibleBy_outcomes_witness:
  "isAccessibleBy setlist_public Unreachable 99 = Inr True \<and>
   isAccessibleBy setlist_of_band Unreachable 1 = Inr True \<and>
   isAccessibleBy (new_setlist ''Solo'' 1) Unreachable 5 = Inr False \<and>
   isAccessibleBy setlist_of_band (Connected []) 5 = Inr False \<and>
   (\<exists>e. isAccessibleBy setlist_of_band Unreachable 5 = Inl e)"
  using isAccessibleBy_outcomes [of setlist_public 99 Unreachable 10 "[]"]
    isAccessibleBy_outcomes [of setlist_of_band 1 Unreachable 10 "[]"]
    isAccessibleBy_outcomes [of "new_setlist ''Solo'' 1" 5 Unreachable 10 "[]"]
    isAccessibleBy_outcomes [of setlist_of_band 5 Unreachable 10 "[]"]
  by (simp add: setlist_public_def setlist_of_band_def new_setlist_def)


section \<open>Properties of the duration hook\<close>

lemma foldl_add_sum_list:
  "foldl (\<lambda>acc x. acc + f x) a xs = (a::int) + sum_list (map f xs)"
  by (induction xs arbitrary: a) simp_all

lemma song_total_sum_list: "song_total ss = sum_list (map duration_or_0 ss)"
  by (simp add: song_total_def foldl_add_sum_list)

lemma snd_reduce_sets:
  "snd (reduce_sets tot xs) =
     map (map_option (\<lambda>s. s\<lparr>set_duration := song_total (songs s)\<rparr>)) xs"
  by (induction tot xs rule: reduce_sets.induct) (simp_all add: Let_def case_prod_beta)

lemma map_filter_None: "List.map_filter id (None # xs) = List.map_filter id xs"
  by (simp add: List.map_filter_def)

lemma map_filter_Some: "List.map_filter id (Some x # xs) = x # List.map_filter id xs"
  by (simp add: List.map_filter_def)

lemma fst_reduce_sets:
  "fst (reduce_sets tot xs) =
     tot + sum_list (map set_duration (List.map_filter id (snd (reduce_sets tot xs))))"
  by (induction tot xs rule: reduce_sets.induct)
     (simp_all add: Let_def case_prod_beta map_filter_None map_filter_Some)

lemma sets_setlist_pre_save:
  "sets (setlist_pre_save sl) =
     map (map_option (\<lambda>s. s\<lparr>set_duration := song_total (songs s)\<rparr>)) (sets sl)"
  using snd_reduce_sets[of 0 "sets sl"]
  by (simp add: setlist_pre_save_def case_prod_beta)

lemma totalDuration_setlist_pre_save:
  "totalDuration (setlist_pre_save sl) =
     sum_list (map set_duration (present_sets (setlist_pre_save sl)))"
  using fst_reduce_sets[of 0 "sets sl"]
  by (simp add: setlist_pre_save_def present_sets_def case_prod_beta)

lemma present_sets_pre_save:
  "s \<in> set (present_sets (setlist_pre_save sl)) \<Longrightarrow> set_duration s = song_total (songs s)"
  by (auto simp: present_sets_def sets_setlist_pre_save List.map_filter_def)

lemma setlist_pre_save_idem: "setlist_pre_save (setlist_pre_save sl) = setlist_pre_save sl"
proof -
  let ?f = "map_option (\<lambda>s. s\<lparr>set_duration := song_total (songs s)\<rparr>)"
  have ff: "?f (?f x) = ?f x" for x by (cases x) simp_all
  have s: "snd (reduce_sets 0 (sets (setlist_pre_save sl))) = sets (setlist_pre_save sl)"
    by (simp add: snd_reduce_sets sets_setlist_pre_save ff)
  have f: "fst (reduce_sets 0 (sets (setlist_pre_save sl))) = totalDuration (setlist_pre_save sl)"
    using fst_reduce_sets[of 0 "sets (setlist_pre_save sl)"]
    by (simp add: s totalDuration_setlist_pre_save present_sets_def)
  have "reduce_sets 0 (sets (setlist_pre_save sl)) =
        (totalDuration (setlist_pre_save sl), sets (setlist_pre_save sl))"
    using s f by (metis prod.collapse)
  then show ?thesis
    by (simp add: setlist_pre_save_def[of "setlist_pre_save sl"])
qed

text \<open>The inner total, with the treatment of an absent duration written out.\<close>

lemma song_total_cases:
  "song_total ss = sum_list (map (\<lambda>e. case duration e of None \<Rightarrow> 0 | Some d \<Rightarrow> d) ss)"
  by (simp add: song_total_sum_list duration_or_0_def[abs_def])

lemma map_filter_map_option:
  "List.map_filter id (map (map_option f) xs) = map f (List.map_filter id xs)"
proof (induction xs)
  case Nil
  show ?case by (simp add: List.map_filter_def)
next
  case (Cons x xs)
  then show ?case by (cases x) (simp_all add: map_filter_None map_filter_Some)
qed

lemma present_sets_setlist_pre_save:
  "present_sets (setlist_pre_save sl) =
     map (\<lambda>s. s\<lparr>set_duration := song_total (songs s)\<rparr>) (present_sets sl)"
  by (simp add: present_sets_def sets_setlist_pre_save map_filter_map_option)

text \<open>
  Claim C2. After the pre-save hook every set of the document has as its duration the sum
  of its songs' durations, where an entry without a duration contributes 0 and an entry
  with duration \<open>d\<close> contributes \<open>d\<close>. The total duration of the document is the sum of
  the durations of its sets, and so the sum of those contributions over all songs of all
  sets of the document the hook was given. The hook leaves the songs as they are, and
  running it a second time changes nothing.
\<close>

theorem setlist_pre_save_totals:
  "(\<forall>s \<in> set (present_sets (setlist_pre_save sl)).
       set_duration s =
         sum_list (map (\<lambda>e. case duration e of None \<Rightarrow> 0 | Some d \<Rightarrow> d) (songs s))) \<and>
   totalDuration (setlist_pre_save sl) =
     sum_list (map set_duration (present_sets (setlist_pre_save sl))) \<and>
   totalDuration (setlist_pre_save sl) =
     sum_list (map (\<lambda>s. sum_list (map (\<lambda>e. case duration e of None \<Rightarrow> 0 | Some d \<Rightarrow> d)
                                     (songs s)))
                (present_sets sl)) \<and>
   map (map_option songs) (sets (setlist_pre_save sl)) = map (map_option songs) (sets sl) \<and>
   setlist_pre_save (setlist_pre_save sl) = setlist_pre_save sl"
proof -
  have a: "\<forall>s \<in> set (present_sets (setlist_pre_save sl)).
       set_duration s =
         sum_list (map (\<lambda>e. case duration e of None \<Rightarrow> 0 | Some d \<Rightarrow> d) (songs s))"
    using present_sets_pre_save[of _ sl] by (simp add: song_total_cases)
  have b: "totalDuration (setlist_pre_save sl) =
     sum_list (map set_duration (present_sets (setlist_pre_save sl)))"
    by (rule totalDuration_setlist_pre_save)
  have c: "totalDuration (setlist_pre_save sl) =
     sum_list (map (\<lambda>s. sum_list (map (\<lambda>e. case duration e of None \<Rightarrow> 0 | Some d \<Rightarrow> d)
                                     (songs s)))
                (present_sets sl))"
    by (simp add: b present_sets_setlist_pre_save comp_def song_total_cases)
  have d: "map (map_option songs) (sets (setlist_pre_save sl)) = map (map_option songs) (sets sl)"
    by (simp add: sets_setlist_pre_save option.map_comp comp_def)
  from a b c d setlist_pre_save_idem[of sl] show ?thesis by (intro conjI)
qed

text \<open>The scenario document, as the three \<open>addSong\<close> calls leave it.\<close>

lemma setlist_two_sets_eval:
  "sets setlist_two_sets =
     [Some \<lparr>name = ''Set 1'', set_duration = 0,
            songs = [\<lparr>songId = 1, order = 1, duration = Some 180, song_notes = [], isPlayed = False\<rparr>,
                     \<lparr>songId = 2, order = 2, duration = Some 200, song_notes = [], isPlayed = False\<rparr>]\<rparr>,
      Some \<lparr>name = ''Set 2'', set_duration = 0,
            songs = [\<lparr>songId = 3, order = 1, duration = Some 150, song_notes = [], isPlayed = False\<rparr>]\<rparr>]"
  by code_simp

text \<open>The document with an absent duration, as its three \<open>addSong\<close> calls leave it.\<close>

lemma setlist_absent_duration_eval:
  "sets setlist_absent_duration =
     [Some \<lparr>name = ''Set 1'', set_duration = 0,
            songs = [\<lparr>songId = 1, order = 1, duration = Some 180, song_notes = [], isPlayed = False\<rparr>,
                     \<lparr>songId = 2, order = 2, duration = None, song_notes = [], isPlayed = False\<rparr>]\<rparr>,
      None,
      Some \<lparr>name = ''Set 3'', set_duration = 0,
            songs = [\<lparr>songId = 3, order = 1, duration = Some 150, song_notes = [], isPlayed = False\<rparr>]\<rparr>]"
  by code_simp

text \<open>
  Claim C2 on the scenario document: the sets total 380 and 150 seconds, the document
  530. And on the document with an absent duration: set 0 holds durations 180 and none,
  set 2 holds 150; the sets total 180 and 150 seconds, the document 330.
\<close>

theorem setlist_pre_save_totals_witness:
  "map set_duration (present_sets (setlist_pre_save setlist_two_sets)) = [380, 150] \<and>
   totalDuration (setlist_pre_save setlist_two_sets) = 530 \<and>
   setlist_pre_save (setlist_pre_save setlist_two_sets) = setlist_pre_save setlist_two_sets \<and>
   map (map_option (map duration \<circ> songs)) (sets setlist_absent_duration) =
     [Some [Some 180, None], None, Some [Some 150]] \<and>
   map set_duration (present_sets (setlist_pre_save setlist_absent_duration)) = [180, 150] \<and>
   totalDuration (setlist_pre_save setlist_absent_duration) = 330 \<and>
   setlist_pre_save (setlist_pre_save setlist_absent_duration) =
     setlist_pre_save setlist_absent_duration"
proof -
  note t = setlist_pre_save_totals [of setlist_two_sets]
  note u = setlist_pre_save_totals [of setlist_absent_duration]
  have pt: "present_sets (setlist_pre_save setlist_two_sets) =
      map (\<lambda>s. s\<lparr>set_duration := song_total (songs s)\<rparr>) (present_sets setlist_two_sets)"
    by (rule present_sets_setlist_pre_save)
  have pu: "present_sets (setlist_pre_save setlist_absent_duration) =
      map (\<lambda>s. s\<lparr>set_duration := song_total (songs s)\<rparr>) (present_sets setlist_absent_duration)"
    by (rule present_sets_setlist_pre_save)
  from t have "\<forall>s \<in> set (present_sets (setlist_pre_save setlist_two_sets)).
       set_duration s =
         sum_list (map (\<lambda>e. case duration e of None \<Rightarrow> 0 | Some d \<Rightarrow> d) (songs s))"
    by blast
  then have "map set_duration (present_sets (setlist_pre_save setlist_two_sets)) =
      map (\<lambda>s. sum_list (map (\<lambda>e. case duration e of None \<Rightarrow> 0 | Some d \<Rightarrow> d) (songs s)))
        (present_sets (setlist_pre_save setlist_two_sets))"
    by (simp only: map_eq_conv)
  also have "\<dots> = [380, 150]"
    unfolding pt by (simp add: present_sets_def setlist_two_sets_eval List.map_filter_def)
  finally have 1: "map set_duration (present_sets (setlist_pre_save setlist_two_sets)) = [380, 150]" .
  from t have 2: "totalDuration (setlist_pre_save setlist_two_sets) = 530"
    by (simp add: present_sets_def setlist_two_sets_eval List.map_filter_def)
  from t have 3: "setlist_pre_save (setlist_pre_save setlist_two_sets) = setlist_pre_save setlist_two_sets"
    by simp
  have 4: "map (map_option (map duration \<circ> songs)) (sets setlist_absent_duration) =
     [Some [Some 180, None], None, Some [Some 150]]"
    by (simp add: setlist_absent_duration_eval)
  from u have "\<forall>s \<in> set (present_sets (setlist_pre_save setlist_absent_duration)).
       set_duration s =
         sum_list (map (\<lambda>e. case duration e of None \<Rightarrow> 0 | Some d \<Rightarrow> d) (songs s))"
    by blast
  then have "map set_duration (present_sets (setlist_pre_save setlist_absent_duration)) =
      map (\<lambda>s. sum_list (map (\<lambda>e. case duration e of None \<Rightarrow> 0 | Some d \<Rightarrow> d) (songs s)))
        (present_sets (setlist_pre_save setlist_absent_duration))"
    by (simp only: map_eq_conv)
  also have "\<dots> = [180, 150]"
    unfolding pu by (simp add: present_sets_def setlist_absent_duration_eval List.map_filter_def)
  finally have 5: "map set_duration (present_sets (setlist_pre_save setlist_absent_duration)) = [180, 150]" .
  from u have 6: "totalDuration (setlist_pre_save setlist_absent_duration) = 330"
    by (simp add: present_sets_def setlist_absent_duration_eval List.map_filter_def)
  from u have 7: "setlist_pre_save (setlist_pre_save setlist_absent_duration) =
     setlist_pre_save setlist_absent_duration"
    by simp
  from 1 2 3 4 5 6 7 show ?thesis by (intro conjI)
qed

section \<open>Properties of the version history\<close>

lemma consecutive_snoc:
  "consecutive vs \<Longrightarrow> (vs = [] \<or> v = last vs + 1) \<Longrightarrow> consecutive (vs @ [v])"
  by (induction vs rule: consecutive.induct) auto

lemma history_consistent_commit:
  assumes "history_consistent sl"
  shows "history_consistent (commit sl a d)"
proof -
  from assms have c: "consecutive (map vr_version (versionHistory sl))"
    and l: "versionHistory sl = [] \<or> vr_version (last (versionHistory sl)) = version sl"
    by (simp_all add: history_consistent_def)
  have "consecutive (map vr_version (versionHistory sl) @ [version sl + 1])"
  proof (cases "versionHistory sl = []")
    case True
    then show ?thesis by simp
  next
    case False
    with l have "last (map vr_version (versionHistory sl)) = version sl"
      by (simp add: last_map)
    with c show ?thesis by (intro consecutive_snoc) simp_all
  qed
  then show ?thesis
    by (simp add: history_consistent_def commit_def Let_def)
qed

lemma history_consistent_commit_all:
  "history_consistent sl \<Longrightarrow> history_consistent (commit_all sl cs)"
  by (induction sl cs rule: commit_all.induct) (simp_all add: history_consistent_commit)

lemma version_commit_all: "version (commit_all sl cs) = version sl + int (length cs)"
  by (induction sl cs rule: commit_all.induct) (simp_all add: commit_def Let_def)

lemma length_history_commit_all:
  "length (versionHistory (commit_all sl cs)) = length (versionHistory sl) + length cs"
  by (induction sl cs rule: commit_all.induct) (simp_all add: commit_def Let_def)

lemma last_history_commit_all:
  "cs \<noteq> [] \<Longrightarrow> vr_version (last (versionHistory (commit_all sl cs))) = version (commit_all sl cs)"
proof (induction sl cs rule: commit_all.induct)
  case (1 sl)
  then show ?case by simp
next
  case (2 sl actorId description cs)
  show ?case
  proof (cases cs)
    case Nil
    then show ?thesis by (simp add: commit_def Let_def)
  next
    case (Cons c cs')
    with 2 show ?thesis by simp
  qed
qed

text \<open>
  Claim C3. A commit appends exactly one version record, numbered one above the version
  the document had, and makes that number the document's version. Over any sequence of
  commits on a document whose history is consistent (numbers rising by one, the last equal
  to the current version), the history stays consistent, grows by one record per commit,
  and the version ends equal to the number of the last record.
\<close>

theorem commit_version_history:
  assumes "history_consistent sl"
  shows "versionHistory (commit sl a d) =
           versionHistory sl @ [\<lparr>vr_version = version sl + 1, changedBy = a, changes = d\<rparr>] \<and>
         version (commit sl a d) = version sl + 1 \<and>
         history_consistent (commit_all sl cs) \<and>
         length (versionHistory (commit_all sl cs)) = length (versionHistory sl) + length cs \<and>
         version (commit_all sl cs) = version sl + int (length cs) \<and>
         (cs \<noteq> [] \<longrightarrow>
            vr_version (last (versionHistory (commit_all sl cs))) = version (commit_all sl cs))"
  using assms
  by (simp add: history_consistent_commit_all version_commit_all length_history_commit_all
      last_history_commit_all) (simp add: commit_def Let_def)

text \<open>
  Claim C3 on a fresh document (version 1, no history) and three commits: the records are
  numbered 2, 3, 4 and the version is 4.
\<close>

theorem commit_version_history_witness:
  "history_consistent (new_setlist ''Gig'' 1) \<and>
   map vr_version (versionHistory (commit_all (new_setlist ''Gig'' 1) [(1, ''add''), (2, ''move''), (1, ''edit'')])) = [2, 3, 4] \<and>
   version (commit_all (new_setlist ''Gig'' 1) [(1, ''add''), (2, ''move''), (1, ''edit'')]) = 4 \<and>
   history_consistent (commit_all (new_setlist ''Gig'' 1) [(1, ''add''), (2, ''move''), (1, ''edit'')])"
proof -
  have h: "history_consistent (new_setlist ''Gig'' 1)"
    by (simp add: history_consistent_def new_setlist_def)
  show ?thesis
    using h commit_version_history [OF h, of 1 "''add''" "[(1, ''add''), (2, ''move''), (1, ''edit'')]"]
    by (simp add: commit_def new_setlist_def Let_def)
qed

section \<open>Properties of the collaboration rooms\<close>

text \<open>
  Claim C9. When a socket sends \<open>update-setlist\<close>, every other socket that is in the
  room of that setlist gets the event appended to what it has received, once; the sender
  gets nothing, and neither does a socket outside the room. Room membership is untouched.
\<close>

theorem update_setlist_reaches_others:
  "rooms (handle st (Update_setlist s d)) = rooms st \<and>
   delivered (handle st (Update_setlist s d)) s = delivered st s \<and>
   (\<forall>t. t \<in> rooms st (room_name (setlistId d)) \<and> t \<noteq> s \<longrightarrow>
        delivered (handle st (Update_setlist s d)) t = delivered st t @ [d]) \<and>
   (\<forall>t. t \<notin> rooms st (room_name (setlistId d)) \<longrightarrow>
        delivered (handle st (Update_setlist s d)) t = delivered st t)"
  by (simp add: socket_to_emit_def)

text \<open>
  Claim C9, the scenario: sockets 1 and 2 join the room of setlist "1" and socket 1 sends an
  update; socket 2 has received exactly that one event and socket 1 none.
\<close>

theorem update_setlist_two_sessions:
  "delivered (run_events io_init
      [Join_setlist 1 ''1'', Join_setlist 2 ''1'', Update_setlist 1 \<lparr>setlistId = ''1'', body = ''v2''\<rparr>]) 2
     = [\<lparr>setlistId = ''1'', body = ''v2''\<rparr>] \<and>
   delivered (run_events io_init
      [Join_setlist 1 ''1'', Join_setlist 2 ''1'', Update_setlist 1 \<lparr>setlistId = ''1'', body = ''v2''\<rparr>]) 1
     = []"
  using update_setlist_reaches_others
    [of "run_events io_init [Join_setlist 1 ''1'', Join_setlist 2 ''1'']" 1
        "\<lparr>setlistId = ''1'', body = ''v2''\<rparr>"]
  by (simp add: run_events_def io_init_def socket_join_def room_name_def)

section \<open>Properties of the ordering operations\<close>

subsection \<open>Array primitives\<close>

lemma length_update_songs: "length (update_songs xs i f) = length xs"
  by (simp add: update_songs_def)

lemma sets_at_update_songs:
  "sets_at (update_songs xs i f) j =
     (if j = int i then map_option (\<lambda>s. s\<lparr>songs := f (songs s)\<rparr>) (sets_at xs j)
      else sets_at xs j)"
  by (auto simp: sets_at_def update_songs_def nth_list_update)

lemma length_sets_assign: "length (sets_assign xs i v) = max (length xs) (Suc i)"
  by (simp add: sets_assign_def)

lemma sets_at_sets_assign:
  "sets_at (sets_assign xs i v) j = (if j = int i then Some v else sets_at xs j)"
  by (auto simp: sets_at_def sets_assign_def nth_list_update nth_append)

lemma sets_at_Some_range: "sets_at xs i = Some s \<Longrightarrow> 0 \<le> i \<and> i < int (length xs)"
  by (simp add: sets_at_def split: if_splits)

lemma splice_start_index: "0 \<le> i \<Longrightarrow> i < int len \<Longrightarrow> splice_start len i = nat i"
  by (simp add: splice_start_def)

subsection \<open>Renumbering\<close>

lemma renumber_conv:
  "renumber ss = map (\<lambda>i. (ss ! i)\<lparr>order := int i + 1\<rparr>) [0..<length ss]"
  by (rule nth_equalityI) (simp_all add: renumber_def nth_enumerate_eq)

lemma length_renumber: "length (renumber ss) = length ss"
  by (simp add: renumber_conv)

lemma orders_renumber: "map order (renumber ss) = map (\<lambda>i. int i + 1) [0..<length ss]"
  by (simp add: renumber_conv)

lemma renumber_keeps_fields:
  "map (\<lambda>e. e\<lparr>order := c\<rparr>) (renumber ss) = map (\<lambda>e. e\<lparr>order := c\<rparr>) ss"
  by (rule nth_equalityI) (simp_all add: renumber_conv)

lemma contiguous_orders_renumber: "contiguous_orders (renumber ss)"
proof -
  have inj: "inj_on (\<lambda>i. int i + 1) (set [0..<length ss])"
    by (simp add: inj_on_def)
  have "(\<lambda>i. int i + 1) ` {0..<length ss} = {1..int (length ss)}"
  proof (intro set_eqI iffI)
    fix x assume "x \<in> (\<lambda>i. int i + 1) ` {0..<length ss}"
    then show "x \<in> {1..int (length ss)}" by auto
  next
    fix x assume x: "x \<in> {1..int (length ss)}"
    then have "x = int (nat (x - 1)) + 1" "nat (x - 1) < length ss" by auto
    then show "x \<in> (\<lambda>i. int i + 1) ` {0..<length ss}" by (metis atLeastLessThan_iff imageI le0)
  qed
  then show ?thesis
    using inj by (simp add: contiguous_orders_def orders_renumber distinct_map length_renumber)
qed

subsection \<open>Adding at the end\<close>

lemma max_order_contiguous:
  assumes "contiguous_orders ss" "ss \<noteq> []"
  shows "max_order ss = int (length ss)"
proof -
  from assms have "set (map order ss) = {1..int (length ss)}" "1 \<le> int (length ss)"
    by (simp_all add: contiguous_orders_def Suc_leI)
  moreover have "Max {1..int (length ss)} = int (length ss)"
    using \<open>1 \<le> int (length ss)\<close> by (intro Max_eqI) auto
  ultimately show ?thesis by (simp add: max_order_def)
qed

lemma contiguous_orders_snoc:
  assumes "contiguous_orders ss"
    and "order e = (if length ss \<noteq> 0 then max_order ss + 1 else 1)"
  shows "contiguous_orders (ss @ [e])"
proof (cases "ss = []")
  case True
  with assms(2) show ?thesis by (simp add: contiguous_orders_def)
next
  case False
  with assms(1) have m: "max_order ss = int (length ss)" by (rule max_order_contiguous)
  from assms(1) have d: "distinct (map order ss)"
    and s: "set (map order ss) = {1..int (length ss)}"
    by (simp_all add: contiguous_orders_def)
  have "insert (int (length ss) + 1) {1..int (length ss)} = {1..int (length ss) + 1}"
    by auto
  with False d s m assms(2) show ?thesis
    by (simp add: contiguous_orders_def)
qed






subsection \<open>The document after addSong\<close>

lemma sets_at_addSong:
  "sets_at (sets (addSong sl i sid d n)) j =
     (if j = int i then
        Some (case sets_at (sets sl) (int i) of
                None \<Rightarrow>
                  \<lparr>name = ''Set '' @ string_of_nat (i + 1), set_duration = 0,
                   songs = [\<lparr>songId = sid, order = 1, duration = d, song_notes = n,
                             isPlayed = False\<rparr>]\<rparr>
              | Some s \<Rightarrow>
                  s\<lparr>songs := songs s @
                     [\<lparr>songId = sid,
                       order = (if length (songs s) \<noteq> 0 then max_order (songs s) + 1 else 1),
                       duration = d, song_notes = n, isPlayed = False\<rparr>]\<rparr>)
      else sets_at (sets sl) j)"
  by (cases "sets_at (sets sl) (int i)")
     (simp_all add: addSong_def Let_def sets_at_update_songs sets_at_sets_assign)

lemma length_sets_addSong:
  "length (sets (addSong sl i sid d n)) = max (length (sets sl)) (Suc i)"
proof (cases "sets_at (sets sl) (int i)")
  case None
  then show ?thesis
    by (simp add: addSong_def Let_def length_update_songs length_sets_assign)
next
  case (Some s)
  from sets_at_Some_range[OF this] Some show ?thesis
    by (simp add: addSong_def Let_def length_update_songs)
qed

subsection \<open>The document after moveSong\<close>

lemma moveSong_Inr:
  assumes "sets_at (sets sl) f = Some src" "sets_at (sets sl) t = Some dst"
    "0 \<le> fs" "fs < int (length (songs src))"
  shows "moveSong sl f fs t p =
     Inr (sl\<lparr>sets :=
       (let s1 = update_songs (sets sl) (nat f) (\<lambda>ss. splice_delete1 ss fs);
            s2 = update_songs s1 (nat t) (\<lambda>ss. splice_insert ss p (songs src ! nat fs));
            s3 = update_songs s2 (nat t) renumber
        in if f \<noteq> t then update_songs s3 (nat f) renumber else s3)\<rparr>)"
  using assms by (simp add: moveSong_def song_at_def Let_def)

lemma moveSong_Inl_iff:
  "(\<exists>e. moveSong sl f fs t p = Inl e) =
     (sets_at (sets sl) f = None \<or> sets_at (sets sl) t = None \<or>
      (\<exists>src. sets_at (sets sl) f = Some src \<and> (fs < 0 \<or> int (length (songs src)) \<le> fs)))"
  by (cases "sets_at (sets sl) f"; cases "sets_at (sets sl) t")
     (auto simp: moveSong_def song_at_def Let_def)

lemma moveSong_sets_at:
  assumes "sets_at (sets sl) f = Some src" "sets_at (sets sl) t = Some dst"
    "0 \<le> fs" "fs < int (length (songs src))" "moveSong sl f fs t p = Inr sl'"
  shows "sets_at (sets sl') j =
     (if j = t then
        (if f = t
         then Some (src\<lparr>songs := renumber (splice_insert (splice_delete1 (songs src) fs) p
                                              (songs src ! nat fs))\<rparr>)
         else Some (dst\<lparr>songs := renumber (splice_insert (songs dst) p (songs src ! nat fs))\<rparr>))
      else if j = f then Some (src\<lparr>songs := renumber (splice_delete1 (songs src) fs)\<rparr>)
      else sets_at (sets sl) j)"
proof -
  from assms(1,2) have r: "0 \<le> f" "0 \<le> t"
    by (auto dest: sets_at_Some_range)
  from assms(5) moveSong_Inr[OF assms(1-4), of p] have
    "sl' = sl\<lparr>sets :=
       (let s1 = update_songs (sets sl) (nat f) (\<lambda>ss. splice_delete1 ss fs);
            s2 = update_songs s1 (nat t) (\<lambda>ss. splice_insert ss p (songs src ! nat fs));
            s3 = update_songs s2 (nat t) renumber
        in if f \<noteq> t then update_songs s3 (nat f) renumber else s3)\<rparr>"
    by simp
  moreover have "f = t \<Longrightarrow> dst = src"
    using assms(1,2) by simp
  ultimately show ?thesis
    using r assms(1,2) by (auto simp: Let_def sets_at_update_songs)
qed

lemma moveSong_length:
  assumes "moveSong sl f fs t p = Inr sl'"
  shows "length (sets sl') = length (sets sl)"
  using assms
  by (auto simp: moveSong_def Let_def length_update_songs split: if_splits option.splits)



subsection \<open>When moveSong fails\<close>

lemma sets_at_None_iff:
  "(sets_at xs i = None) = (i < 0 \<or> int (length xs) \<le> i \<or> xs ! nat i = None)"
  by (auto simp: sets_at_def)

text \<open>
  Claim C6, amended. \<open>moveSong\<close> fails exactly when \<open>fromSetIndex\<close> or \<open>toSetIndex\<close>
  designates no set, or \<open>fromSongIndex\<close> is outside the songs of the source set. An index
  designates no set when it is negative, when it is past the end of the sets array, and
  also when it is within the array at a hole. A missing set is reported as an invalid set
  index. After a failure the caller still holds the document unchanged.
\<close>

theorem moveSong_fails_iff:
  "((\<exists>e. moveSong sl f fs t p = Inl e) =
      (sets_at (sets sl) f = None \<or> sets_at (sets sl) t = None \<or>
       (\<exists>src. sets_at (sets sl) f = Some src \<and> (fs < 0 \<or> int (length (songs src)) \<le> fs)))) \<and>
   ((sets_at (sets sl) i = None) =
      (i < 0 \<or> int (length (sets sl)) \<le> i \<or> sets sl ! nat i = None)) \<and>
   ((moveSong sl f fs t p = Inl Invalid_set_index) =
      (sets_at (sets sl) f = None \<or> sets_at (sets sl) t = None)) \<and>
   (\<forall>e. moveSong sl f fs t p = Inl e \<longrightarrow> apply_op sl (MoveSong f fs t p) = sl)"
proof -
  have "(moveSong sl f fs t p = Inl Invalid_set_index) =
      (sets_at (sets sl) f = None \<or> sets_at (sets sl) t = None)"
    by (cases "sets_at (sets sl) f"; cases "sets_at (sets sl) t")
       (auto simp: moveSong_def song_at_def Let_def)
  moreover have "\<forall>e. moveSong sl f fs t p = Inl e \<longrightarrow> apply_op sl (MoveSong f fs t p) = sl"
    by (simp add: keep_on_error_def)
  ultimately show ?thesis
    using moveSong_Inl_iff[of sl f fs t p] sets_at_None_iff[of "sets sl" i] by blast
qed

text \<open>
  Claim C6, amended, at concrete inputs: a destination that is a hole, a destination past
  the end, a song index past the end (the document is unchanged), and a call that succeeds.
\<close>

theorem moveSong_fails_iff_witness:
  "(\<exists>e. moveSong setlist_with_hole 1 0 0 0 = Inl e) \<and>
   (\<exists>e. moveSong setlist_two_sets 0 0 2 0 = Inl e) \<and>
   (\<exists>e. moveSong setlist_two_sets 0 2 1 0 = Inl e) \<and>
   apply_op setlist_two_sets (MoveSong 0 2 1 0) = setlist_two_sets \<and>
   \<not> (\<exists>e. moveSong setlist_two_sets 0 1 1 0 = Inl e)"
proof -
  have a: "sets_at (sets setlist_with_hole) 0 = None" by code_simp
  have b: "sets_at (sets setlist_two_sets) 2 = None" by code_simp
  have c: "sets_at (sets setlist_two_sets) 0 =
             Some \<lparr>name = ''Set 1'', set_duration = 0,
                   songs = [\<lparr>songId = 1, order = 1, duration = Some 180, song_notes = [], isPlayed = False\<rparr>,
                            \<lparr>songId = 2, order = 2, duration = Some 200, song_notes = [], isPlayed = False\<rparr>]\<rparr>"
    by code_simp
  have d: "sets_at (sets setlist_two_sets) 1 \<noteq> None" by code_simp
  from a moveSong_fails_iff[of setlist_with_hole 1 0 0 0 0]
  have 1: "\<exists>e. moveSong setlist_with_hole 1 0 0 0 = Inl e" by blast
  from b moveSong_fails_iff[of setlist_two_sets 0 0 2 0 0]
  have 2: "\<exists>e. moveSong setlist_two_sets 0 0 2 0 = Inl e" by blast
  from c moveSong_fails_iff[of setlist_two_sets 0 2 1 0 0]
  have 3: "\<exists>e. moveSong setlist_two_sets 0 2 1 0 = Inl e"
    and 4: "apply_op setlist_two_sets (MoveSong 0 2 1 0) = setlist_two_sets" by auto
  from c d moveSong_fails_iff[of setlist_two_sets 0 1 1 0 0]
  have 5: "\<not> (\<exists>e. moveSong setlist_two_sets 0 1 1 0 = Inl e)" by auto
  from 1 2 3 4 5 show ?thesis by blast
qed

text \<open>
  Claim C6 says \<open>moveSong\<close> fails only for an index out of range. In
  \<open>setlist_with_hole\<close> the sets array has length 2, set 1 holds one song, and index 0 is a
  hole: \<open>moveSong(1, 0, 0, 0)\<close> has all its indexes within range and fails.
\<close>

theorem moveSong_fails_at_hole:
  "length (sets setlist_with_hole) = 2 \<and>
   song_ids_in setlist_with_hole 1 = [1] \<and>
   moveSong setlist_with_hole 1 0 0 0 = Inl Invalid_set_index"
  by code_simp

subsection \<open>What moveSong does\<close>

lemma orders_renumber_upt: "map order (renumber ss) = map int [1..<Suc (length ss)]"
proof -
  have "map int [Suc 0..<Suc (length ss)] = map int (map Suc [0..<length ss])"
    by (simp only: map_Suc_upt)
  then show ?thesis by (simp add: orders_renumber)
qed

lemma unordered_renumber: "map unordered (renumber ss) = map unordered ss"
  using renumber_keeps_fields[of 0 ss] by (simp add: unordered_def[abs_def])

lemma splice_delete1_index:
  "0 \<le> i \<Longrightarrow> i < int (length xs) \<Longrightarrow> splice_delete1 xs i = take (nat i) xs @ drop (Suc (nat i)) xs"
  by (simp add: splice_delete1_def splice_start_index Let_def)

lemma length_splice_insert: "length (splice_insert xs p x) = Suc (length xs)"
  by (simp add: splice_insert_def splice_start_def Let_def)

lemma unordered_splice_insert:
  "map unordered (splice_insert xs p x) =
     take (splice_start (length xs) p) (map unordered xs) @ [unordered x] @
     drop (splice_start (length xs) p) (map unordered xs)"
  by (simp add: splice_insert_def Let_def take_map drop_map)

text \<open>
  Claim C4, amended. For a call whose two set indexes designate sets and whose song index
  is within the source set, \<open>moveSong\<close> succeeds; the sets array keeps its length and
  every other set is untouched; the source and destination sets keep their names and
  durations. With \<open>base\<close> the songs of the destination once the entry has been taken out
  (the source without the entry when source and destination are the same set), the entry
  is inserted at position \<open>k\<close>: \<open>toPosition\<close> limited to the length of \<open>base\<close> when it is
  not negative, and \<open>length + toPosition\<close>, but no less than 0, when it is negative. The
  destination is renumbered \<open>1..N\<close> in positional order, and so is the source when the two
  sets differ.
\<close>

theorem moveSong_effect:
  assumes "sets_at (sets sl) f = Some src" and "sets_at (sets sl) t = Some dst"
    and "0 \<le> fs" and "fs < int (length (songs src))"
  shows "\<exists>sl' src' dst'.
     moveSong sl f fs t p = Inr sl' \<and>
     length (sets sl') = length (sets sl) \<and>
     (\<forall>j. j \<noteq> f \<and> j \<noteq> t \<longrightarrow> sets_at (sets sl') j = sets_at (sets sl) j) \<and>
     sets_at (sets sl') f = Some src' \<and> sets_at (sets sl') t = Some dst' \<and>
     src' = src\<lparr>songs := songs src'\<rparr> \<and> dst' = dst\<lparr>songs := songs dst'\<rparr> \<and>
     (let moved = songs src ! nat fs;
          rest = take (nat fs) (songs src) @ drop (Suc (nat fs)) (songs src);
          base = (if f = t then rest else songs dst);
          k = (if p < 0 then nat (max (int (length base) + p) 0)
               else nat (min p (int (length base))))
      in map unordered (songs dst') =
           take k (map unordered base) @ [unordered moved] @ drop k (map unordered base) \<and>
         map order (songs dst') = map int [1..<Suc (Suc (length base))] \<and>
         (f \<noteq> t \<longrightarrow>
            map unordered (songs src') = map unordered rest \<and>
            map order (songs src') = map int [1..<Suc (length rest)]))"
proof -
  define moved where "moved = songs src ! nat fs"
  define rest where "rest = take (nat fs) (songs src) @ drop (Suc (nat fs)) (songs src)"
  have del: "splice_delete1 (songs src) fs = rest"
    unfolding rest_def using assms(3,4) by (rule splice_delete1_index)
  from moveSong_Inr[OF assms, of p] obtain sl' where eq: "moveSong sl f fs t p = Inr sl'"
    by blast
  note at = moveSong_sets_at[OF assms eq, folded moved_def, unfolded del]
  have len: "length (sets sl') = length (sets sl)" using eq by (rule moveSong_length)
  have other: "\<forall>j. j \<noteq> f \<and> j \<noteq> t \<longrightarrow> sets_at (sets sl') j = sets_at (sets sl) j"
    by (simp add: at)
  have U: "map unordered (renumber (splice_insert xs p moved)) =
        take (splice_start (length xs) p) (map unordered xs) @ [unordered moved] @
        drop (splice_start (length xs) p) (map unordered xs)" for xs
    by (simp add: unordered_renumber unordered_splice_insert)
  have O: "map order (renumber (splice_insert xs p moved)) = map int [1..<Suc (Suc (length xs))]"
    for xs
    by (simp only: orders_renumber_upt length_splice_insert)
  show ?thesis
  proof (cases "f = t")
    case True
    with assms(1,2) have sd: "dst = src" by simp
    define new where "new = src\<lparr>songs := renumber (splice_insert rest p moved)\<rparr>"
    have n: "sets_at (sets sl') f = Some new" "sets_at (sets sl') t = Some new"
      using True by (simp_all add: at new_def)
    have r: "new = src\<lparr>songs := songs new\<rparr>" by (simp add: new_def)
    have u: "map unordered (songs new) =
        take (splice_start (length rest) p) (map unordered rest) @ [unordered moved] @
        drop (splice_start (length rest) p) (map unordered rest)"
      by (simp add: new_def U)
    have o: "map order (songs new) = map int [1..<Suc (Suc (length rest))]"
    proof -
      have "songs new = renumber (splice_insert rest p moved)" by (simp add: new_def)
      then show ?thesis by (simp only: O)
    qed
    show ?thesis
      apply (rule exI[of _ sl'], rule exI[of _ new], rule exI[of _ new])
      using eq len other True sd n r[symmetric] u o
      by (simp only: Let_def moved_def[symmetric] rest_def[symmetric] splice_start_def
            if_True simp_thms)
  next
    case False
    define s where "s = src\<lparr>songs := renumber rest\<rparr>"
    define d where "d = dst\<lparr>songs := renumber (splice_insert (songs dst) p moved)\<rparr>"
    have n: "sets_at (sets sl') f = Some s" "sets_at (sets sl') t = Some d"
      using False by (simp_all add: at s_def d_def)
    have r: "s = src\<lparr>songs := songs s\<rparr>" "d = dst\<lparr>songs := songs d\<rparr>"
      by (simp_all add: s_def d_def)
    have u: "map unordered (songs d) =
        take (splice_start (length (songs dst)) p) (map unordered (songs dst)) @ [unordered moved] @
        drop (splice_start (length (songs dst)) p) (map unordered (songs dst))"
      by (simp add: d_def U)
    have o: "map order (songs d) = map int [1..<Suc (Suc (length (songs dst)))]"
    proof -
      have "songs d = renumber (splice_insert (songs dst) p moved)" by (simp add: d_def)
      then show ?thesis by (simp only: O)
    qed
    have us: "map unordered (songs s) = map unordered rest"
      by (simp add: s_def unordered_renumber)
    have os: "map order (songs s) = map int [1..<Suc (length rest)]"
    proof -
      have "songs s = renumber rest" by (simp add: s_def)
      then show ?thesis by (simp only: orders_renumber_upt)
    qed
    show ?thesis
      apply (rule exI[of _ sl'], rule exI[of _ s], rule exI[of _ d])
      using eq len other False n r[symmetric] u o us os
      by (simp only: Let_def moved_def[symmetric] rest_def[symmetric] splice_start_def
            if_False simp_thms)
  qed
qed


subsection \<open>Order values stay contiguous\<close>

lemma setlist_inv_iff:
  "setlist_inv sl = (\<forall>j s. sets_at (sets sl) j = Some s \<longrightarrow> contiguous_orders (songs s))"
proof
  assume inv: "setlist_inv sl"
  show "\<forall>j s. sets_at (sets sl) j = Some s \<longrightarrow> contiguous_orders (songs s)"
  proof (intro allI impI)
    fix j s assume a: "sets_at (sets sl) j = Some s"
    from sets_at_Some_range[OF a] have "nat j < length (sets sl)" by linarith
    moreover from a have "sets sl ! nat j = Some s" by (simp add: sets_at_def split: if_splits)
    ultimately show "contiguous_orders (songs s)"
      using inv by (auto simp: setlist_inv_def list_all_length split: option.splits)
  qed
next
  assume r: "\<forall>j s. sets_at (sets sl) j = Some s \<longrightarrow> contiguous_orders (songs s)"
  show "setlist_inv sl"
    unfolding setlist_inv_def list_all_length
  proof (intro allI impI)
    fix n assume n: "n < length (sets sl)"
    then have "sets_at (sets sl) (int n) = sets sl ! n" by (simp add: sets_at_def)
    with r show "case sets sl ! n of None \<Rightarrow> True | Some st \<Rightarrow> contiguous_orders (songs st)"
      by (cases "sets sl ! n") auto
  qed
qed

lemma setlist_inv_addSong:
  assumes "setlist_inv sl"
  shows "setlist_inv (addSong sl i sid d n)"
  unfolding setlist_inv_iff
proof (intro allI impI)
  fix j s assume a: "sets_at (sets (addSong sl i sid d n)) j = Some s"
  show "contiguous_orders (songs s)"
  proof (cases "j = int i")
    case False
    with a have "sets_at (sets sl) j = Some s" by (simp add: sets_at_addSong)
    with assms show ?thesis unfolding setlist_inv_iff by blast
  next
    case True
    show ?thesis
    proof (cases "sets_at (sets sl) (int i)")
      case None
      with a True have "songs s = [\<lparr>songId = sid, order = 1, duration = d, song_notes = n,
                             isPlayed = False\<rparr>]"
        by (auto simp: sets_at_addSong)
      then show ?thesis by (simp add: contiguous_orders_def)
    next
      case (Some s0)
      with assms have c: "contiguous_orders (songs s0)" unfolding setlist_inv_iff by blast
      from a True Some have e: "songs s = songs s0 @
           [\<lparr>songId = sid,
             order = (if length (songs s0) \<noteq> 0 then max_order (songs s0) + 1 else 1),
             duration = d, song_notes = n, isPlayed = False\<rparr>]"
        by (auto simp: sets_at_addSong)
      from c show ?thesis unfolding e by (rule contiguous_orders_snoc) simp
    qed
  qed
qed

lemma moveSong_Inr_D:
  assumes "moveSong sl f fs t p = Inr sl'"
  shows "\<exists>src dst. sets_at (sets sl) f = Some src \<and> sets_at (sets sl) t = Some dst \<and>
           0 \<le> fs \<and> fs < int (length (songs src))"
  using assms
  by (cases "sets_at (sets sl) f"; cases "sets_at (sets sl) t")
     (auto simp: moveSong_def song_at_def Let_def split: if_splits)

lemma setlist_inv_moveSong:
  assumes "setlist_inv sl" "moveSong sl f fs t p = Inr sl'"
  shows "setlist_inv sl'"
proof -
  from moveSong_Inr_D[OF assms(2)] obtain src dst where
    v: "sets_at (sets sl) f = Some src" "sets_at (sets sl) t = Some dst"
       "0 \<le> fs" "fs < int (length (songs src))" by blast
  note at = moveSong_sets_at[OF v assms(2)]
  show ?thesis
    unfolding setlist_inv_iff
  proof (intro allI impI)
    fix j s assume a: "sets_at (sets sl') j = Some s"
    consider "j = t" | "j \<noteq> t" "j = f" | "j \<noteq> t" "j \<noteq> f" by blast
    then show "contiguous_orders (songs s)"
    proof cases
      case 1
      with a at[of j] obtain ss where "songs s = renumber ss"
        by (cases "f = t") auto
      then show ?thesis by (simp add: contiguous_orders_renumber)
    next
      case 2
      with a at[of j] have "songs s = renumber (splice_delete1 (songs src) fs)" by auto
      then show ?thesis by (simp add: contiguous_orders_renumber)
    next
      case 3
      with a at[of j] have "sets_at (sets sl) j = Some s" by simp
      with assms(1) show ?thesis by (simp add: setlist_inv_iff)
    qed
  qed
qed

lemma removeSong_sets_at:
  assumes "removeSong sl i k = Inr sl'"
  shows "\<exists>s. sets_at (sets sl) i = Some s \<and>
     (\<forall>j. sets_at (sets sl') j =
        (if j = i then Some (s\<lparr>songs := renumber (splice_delete1 (songs s) k)\<rparr>)
         else sets_at (sets sl) j))"
proof (cases "sets_at (sets sl) i")
  case None
  with assms show ?thesis by (simp add: removeSong_def)
next
  case (Some s)
  from sets_at_Some_range[OF Some] have "int (nat i) = i" by simp
  with assms Some show ?thesis
    by (auto simp: removeSong_def sets_at_update_songs split: option.splits)
qed

lemma setlist_inv_removeSong:
  assumes "setlist_inv sl" "removeSong sl i k = Inr sl'"
  shows "setlist_inv sl'"
proof -
  from removeSong_sets_at[OF assms(2)] obtain s0 where
    at: "\<And>j. sets_at (sets sl') j =
        (if j = i then Some (s0\<lparr>songs := renumber (splice_delete1 (songs s0) k)\<rparr>)
         else sets_at (sets sl) j)" by blast
  show ?thesis
    unfolding setlist_inv_iff
  proof (intro allI impI)
    fix j s assume a: "sets_at (sets sl') j = Some s"
    show "contiguous_orders (songs s)"
    proof (cases "j = i")
      case True
      with a at[of j] have "songs s = renumber (splice_delete1 (songs s0) k)" by auto
      then show ?thesis by (simp add: contiguous_orders_renumber)
    next
      case False
      with a at[of j] have "sets_at (sets sl) j = Some s" by simp
      with assms(1) show ?thesis by (simp add: setlist_inv_iff)
    qed
  qed
qed

lemma setlist_inv_apply_op: "setlist_inv sl \<Longrightarrow> setlist_inv (apply_op sl op)"
proof (cases op)
  case (AddSong i sid d n)
  assume "setlist_inv sl"
  then show ?thesis by (simp add: AddSong setlist_inv_addSong)
next
  case (MoveSong f fs t p)
  assume "setlist_inv sl"
  then show ?thesis
    by (cases "moveSong sl f fs t p")
       (simp_all add: MoveSong keep_on_error_def setlist_inv_moveSong)
next
  case (RemoveSong i k)
  assume "setlist_inv sl"
  then show ?thesis
    by (cases "removeSong sl i k")
       (simp_all add: RemoveSong keep_on_error_def setlist_inv_removeSong)
qed

text \<open>
  Claim C1. Starting from a document in which the order values of every set are exactly
  \<open>1..N\<close>, each once (in particular a document with no sets), after every operation of any
  sequence of \<open>addSong\<close>, \<open>moveSong\<close> and \<open>removeSong\<close> calls the order values of every
  set are again exactly \<open>1..N\<close>, each once.
\<close>

theorem orders_contiguous_after_each_operation:
  "setlist_inv sl \<Longrightarrow> \<forall>s \<in> set (states_after sl ops). setlist_inv s"
proof (induction ops arbitrary: sl)
  case Nil
  then show ?case by simp
next
  case (Cons op ops)
  from Cons.prems have "setlist_inv (apply_op sl op)" by (rule setlist_inv_apply_op)
  with Cons.IH[of "apply_op sl op"] show ?case by simp
qed


text \<open>
  Claim C1 on a fresh document and seven operations, the last of which fails: the order
  values of sets 0 and 1 after each of them.
\<close>

theorem orders_contiguous_after_each_operation_witness:
  "setlist_inv (new_setlist ''Gig'' 1) \<and>
   list_all setlist_inv
     (states_after (new_setlist ''Gig'' 1)
        [AddSong 0 1 (Some 180) [], AddSong 0 2 (Some 200) [], AddSong 1 3 (Some 150) [],
         MoveSong 0 1 1 0, AddSong 0 4 None [], RemoveSong 1 0, MoveSong 5 0 0 0]) \<and>
   map (\<lambda>s. (orders_in s 0, orders_in s 1))
     (states_after (new_setlist ''Gig'' 1)
        [AddSong 0 1 (Some 180) [], AddSong 0 2 (Some 200) [], AddSong 1 3 (Some 150) [],
         MoveSong 0 1 1 0, AddSong 0 4 None [], RemoveSong 1 0, MoveSong 5 0 0 0]) =
     [([1], []), ([1, 2], []), ([1, 2], [1]), ([1], [1, 2]), ([1, 2], [1, 2]),
      ([1, 2], [1]), ([1, 2], [1])]"
proof -
  have h: "setlist_inv (new_setlist ''Gig'' 1)"
    by (simp add: setlist_inv_def new_setlist_def)
  have e: "map (\<lambda>s. (orders_in s 0, orders_in s 1))
     (states_after (new_setlist ''Gig'' 1)
        [AddSong 0 1 (Some 180) [], AddSong 0 2 (Some 200) [], AddSong 1 3 (Some 150) [],
         MoveSong 0 1 1 0, AddSong 0 4 None [], RemoveSong 1 0, MoveSong 5 0 0 0]) =
     [([1], []), ([1, 2], []), ([1, 2], [1]), ([1], [1, 2]), ([1, 2], [1, 2]),
      ([1, 2], [1]), ([1, 2], [1])]"
    by code_simp
  have l: "list_all setlist_inv
     (states_after (new_setlist ''Gig'' 1)
        [AddSong 0 1 (Some 180) [], AddSong 0 2 (Some 200) [], AddSong 1 3 (Some 150) [],
         MoveSong 0 1 1 0, AddSong 0 4 None [], RemoveSong 1 0, MoveSong 5 0 0 0])"
    unfolding list_all_iff by (rule orders_contiguous_after_each_operation [OF h])
  from h l e show ?thesis by (intro conjI)
qed

subsection \<open>What addSong does\<close>

text \<open>
  Claim C8, amended. Where no set exists at \<open>setIndex\<close>, \<open>addSong\<close> creates one there, named
  "Set" followed by \<open>setIndex + 1\<close>, holding the new entry with order 1. Where a set exists,
  the new entry is appended with order 1 if the set is empty and the largest order of the
  set plus 1 otherwise, which is above every order in the set. Every other position of the
  sets array is as before, and the array is extended just enough to hold \<open>setIndex\<close>.
\<close>

theorem addSong_effect:
  "(sets_at (sets sl) (int i) = None \<longrightarrow>
      sets_at (sets (addSong sl i sid d n)) (int i) =
        Some \<lparr>name = ''Set '' @ string_of_nat (i + 1), set_duration = 0,
              songs = [\<lparr>songId = sid, order = 1, duration = d, song_notes = n,
                        isPlayed = False\<rparr>]\<rparr>) \<and>
   (\<forall>s. sets_at (sets sl) (int i) = Some s \<longrightarrow>
      sets_at (sets (addSong sl i sid d n)) (int i) =
        Some (s\<lparr>songs := songs s @
                [\<lparr>songId = sid,
                  order = (if songs s = [] then 1 else Max (set (map order (songs s))) + 1),
                  duration = d, song_notes = n, isPlayed = False\<rparr>]\<rparr>) \<and>
      (\<forall>e \<in> set (songs s).
          order e < (if songs s = [] then 1 else Max (set (map order (songs s))) + 1))) \<and>
   (\<forall>j. j \<noteq> int i \<longrightarrow> sets_at (sets (addSong sl i sid d n)) j = sets_at (sets sl) j) \<and>
   length (sets (addSong sl i sid d n)) = max (length (sets sl)) (Suc i)"
proof -
  have "order e < Max (set (map order ss)) + 1" if "e \<in> set ss" for e ss
  proof -
    from that have "order e \<le> Max (set (map order ss))" by (intro Max_ge) auto
    then show ?thesis by simp
  qed
  then show ?thesis
    by (auto simp: sets_at_addSong length_sets_addSong max_order_def)
qed

text \<open>
  Claim C8, amended, at concrete inputs: \<open>addSong\<close> at index 1 of a document without sets
  creates "Set 2" and leaves a hole at index 0; \<open>addSong\<close> into a set with orders 1, 2
  appends order 3.
\<close>

theorem addSong_effect_witness:
  "sets_at (sets (new_setlist ''Late start'' 1)) 1 = None \<and>
   sets_at (sets setlist_with_hole) 0 = None \<and>
   sets_at (sets setlist_with_hole) 1 =
      Some \<lparr>name = ''Set 2'', set_duration = 0,
            songs = [\<lparr>songId = 1, order = 1, duration = Some 180, song_notes = [],
                      isPlayed = False\<rparr>]\<rparr> \<and>
   length (sets setlist_with_hole) = 2 \<and>
   orders_in setlist_two_sets 0 = [1, 2] \<and>
   orders_in (addSong setlist_two_sets 0 4 None []) 0 = [1, 2, 3]"
proof -
  have a: "sets_at (sets (new_setlist ''Late start'' 1)) 1 = None"
    and a0: "sets_at (sets (new_setlist ''Late start'' 1)) 0 = None"
    and al: "length (sets (new_setlist ''Late start'' 1)) = 0"
    by (simp_all add: sets_at_def new_setlist_def)
  have n: "''Set '' @ string_of_nat (Suc (Suc 0)) = ''Set 2''" by code_simp
  note t = addSong_effect [of "new_setlist ''Late start'' 1" 1 1 "Some 180" "[]",
      folded setlist_with_hole_def]
  from t a n have 1: "sets_at (sets setlist_with_hole) 1 =
      Some \<lparr>name = ''Set 2'', set_duration = 0,
            songs = [\<lparr>songId = 1, order = 1, duration = Some 180, song_notes = [],
                      isPlayed = False\<rparr>]\<rparr>"
    by simp
  from t a0 have 0: "sets_at (sets setlist_with_hole) 0 = None" by simp
  from t al have l: "length (sets setlist_with_hole) = 2" by simp
  have b: "sets_at (sets setlist_two_sets) 0 =
             Some \<lparr>name = ''Set 1'', set_duration = 0,
                   songs = [\<lparr>songId = 1, order = 1, duration = Some 180, song_notes = [], isPlayed = False\<rparr>,
                            \<lparr>songId = 2, order = 2, duration = Some 200, song_notes = [], isPlayed = False\<rparr>]\<rparr>"
    by code_simp
  from addSong_effect [of setlist_two_sets 0 4 None "[]"] b
  have 2: "orders_in (addSong setlist_two_sets 0 4 None []) 0 = [1, 2, 3]"
    by (simp add: orders_in_def)
  from b have 3: "orders_in setlist_two_sets 0 = [1, 2]" by (simp add: orders_in_def)
  from a 0 1 l 2 3 show ?thesis by (intro conjI)
qed

text \<open>
  Claim C8 says \<open>addSong\<close> never reuses a retired order value. In the scenario document
  set 0 has orders 1, 2; \<open>moveSong(0, 1, 1, 0)\<close> moves the entry with order 2 out of it,
  leaving order 1; the next \<open>addSong\<close> into set 0 assigns order 2 again.
\<close>

theorem addSong_reuses_freed_order:
  "moveSong setlist_two_sets 0 1 1 0 = Inr setlist_after_move \<and>
   orders_in setlist_two_sets 0 = [1, 2] \<and>
   orders_in setlist_after_move 0 = [1] \<and>
   orders_in (addSong setlist_after_move 0 4 None []) 0 = [1, 2]"
  by code_simp

subsection \<open>moveSong on the example documents\<close>

text \<open>
  Claim C4 says the entry is inserted at \<open>toPosition\<close> clamped to \<open>[0, length]\<close>. In a set
  of songs 1, 2, 3, \<open>moveSong(0, 0, 0, -1)\<close> takes song 1 out and inserts it before the last
  of the remaining two, giving 2, 1, 3; clamping \<open>-1\<close> gives position 0, which would give
  1, 2, 3.
\<close>

theorem moveSong_negative_position:
  "song_ids_in setlist_three_songs 0 = [1, 2, 3] \<and>
   song_ids_of_result (moveSong setlist_three_songs 0 0 0 (-1)) 0 = Inr [2, 1, 3] \<and>
   orders_of_result (moveSong setlist_three_songs 0 0 0 (-1)) 0 = Inr [1, 2, 3] \<and>
   clamped_position 2 (-1) = 0 \<and>
   take (clamped_position 2 (-1)) [2, 3] @ [1] @ drop (clamped_position 2 (-1)) [2, 3]
     = [1, 2, 3::nat]"
  by code_simp

lemma songId_unordered: "map songId xs = map songId (map unordered xs)"
  by (simp add: unordered_def)

text \<open>
  Claim C4, amended, on the scenario of the specification: \<open>moveSong(0, 1, 1, 0)\<close> leaves
  song 1 in set 0 with order 1, and songs 2, 3 in set 1 with orders 1, 2.
\<close>

theorem moveSong_effect_witness:
  "\<exists>sl' src' dst'.
     moveSong setlist_two_sets 0 1 1 0 = Inr sl' \<and>
     sets_at (sets sl') 0 = Some src' \<and> sets_at (sets sl') 1 = Some dst' \<and>
     map songId (songs src') = [1] \<and> map order (songs src') = [1] \<and>
     map songId (songs dst') = [2, 3] \<and> map order (songs dst') = [1, 2]"
proof -
  have a: "sets_at (sets setlist_two_sets) 0 =
             Some \<lparr>name = ''Set 1'', set_duration = 0,
                   songs = [\<lparr>songId = 1, order = 1, duration = Some 180, song_notes = [], isPlayed = False\<rparr>,
                            \<lparr>songId = 2, order = 2, duration = Some 200, song_notes = [], isPlayed = False\<rparr>]\<rparr>"
    by code_simp
  have b: "sets_at (sets setlist_two_sets) 1 =
             Some \<lparr>name = ''Set 2'', set_duration = 0,
                   songs = [\<lparr>songId = 3, order = 1, duration = Some 150, song_notes = [], isPlayed = False\<rparr>]\<rparr>"
    by code_simp
  have u: "[1..<Suc (Suc (Suc 0))] = [1, 2]" "[1..<Suc (Suc 0)] = [1]" by code_simp+
  from moveSong_effect [OF a b, of 1 0] obtain sl' src' dst' where
    m: "moveSong setlist_two_sets 0 1 1 0 = Inr sl'"
    and s: "sets_at (sets sl') 0 = Some src'" and d: "sets_at (sets sl') 1 = Some dst'"
    and ud: "map unordered (songs dst') =
         [unordered \<lparr>songId = 2, order = 2, duration = Some 200, song_notes = [], isPlayed = False\<rparr>,
          unordered \<lparr>songId = 3, order = 1, duration = Some 150, song_notes = [], isPlayed = False\<rparr>]"
    and od: "map order (songs dst') = [1, 2]"
    and us: "map unordered (songs src') =
         [unordered \<lparr>songId = 1, order = 1, duration = Some 180, song_notes = [], isPlayed = False\<rparr>]"
    and os: "map order (songs src') = [1]"
    by (auto simp: Let_def u)
  have "map songId (songs dst') = [2, 3]" "map songId (songs src') = [1]"
    by (simp_all add: songId_unordered[of "songs dst'"] songId_unordered[of "songs src'"] ud us
          unordered_def)
  with m s d od os show ?thesis
    by (intro exI[of _ sl'] exI[of _ src'] exI[of _ dst'] conjI)
qed

end
